theory Spec2Isabelle
  imports Main "HOL-Library.Sublist" "HOL-Library.Char_ord" "HOL-Library.List_Lexorder"
begin

section \<open>Strings, errors and the host\<close>

text \<open>
  The model of \<^verbatim>\<open>lib/models.js\<close>, the class \<^verbatim>\<open>Path\<close>. A JavaScript string is a
  sequence of UTF-16 code units; the model takes HOL's \<open>string\<close>, so it covers the
  strings whose code units are below 256. The order on characters is the order of the
  code units and the order on strings is the lexicographic one, which is the order of
  JavaScript's \<^verbatim>\<open>Array.prototype.sort\<close> without a comparison function.
\<close>

datatype error = TypeError | Error string

text \<open>\<open>returns r P\<close>: the call \<open>r\<close> did not throw, and its value satisfies \<open>P\<close>.\<close>

definition returns :: "error + 'a \<Rightarrow> ('a \<Rightarrow> bool) \<Rightarrow> bool" where
  "returns r P = (case r of Inl e \<Rightarrow> False | Inr v \<Rightarrow> P v)"

definition slash :: char where
  "slash = CHR ''/''"

definition backslash :: char where
  "backslash = CHR 0x5C"

text \<open>
  What the class takes from its environment: the platform of Node's \<^verbatim>\<open>path\<close> module
  (\<^verbatim>\<open>stdPath.sep\<close> is \<^verbatim>\<open>/\<close> or the backslash), \<^verbatim>\<open>stdPath.dirname\<close>,
  \<^verbatim>\<open>absolutify\<close> of \<^verbatim>\<open>lib/utils.js\<close>, which resolves against the project directory and
  the home directory, and \<^verbatim>\<open>String.prototype.localeCompare\<close>, whose result (a negative
  number, zero or a positive one) comes from the collation of the engine and the locale
  of the host. The last three are parameters of the model.
\<close>

datatype platform = Posix | Win32

record host =
  platform :: platform
  absolutify :: "string \<Rightarrow> string"
  dirname :: "string \<Rightarrow> string"
  localeCompare :: "string \<Rightarrow> string \<Rightarrow> int"

definition stdPath_sep :: "platform \<Rightarrow> string" where
  "stdPath_sep pf = (case pf of Posix \<Rightarrow> [slash] | Win32 \<Rightarrow> [backslash])"

text \<open>
  Modelled from the spec: \<^verbatim>\<open>preferredSeparatorFor\<close> of \<^verbatim>\<open>lib/utils.js\<close>, which is not
  among the sources. The spec, section 4.1: scan the string for separator candidates; if
  both forward slash and backslash appear, or neither appears, fall back to the host
  platform's native separator.
\<close>

definition preferredSeparatorFor :: "platform \<Rightarrow> string \<Rightarrow> string" where
  "preferredSeparatorFor pf path =
     (let forward = slash \<in> set path; back = backslash \<in> set path
      in if forward \<and> \<not> back then [slash]
         else if back \<and> \<not> forward then [backslash]
         else stdPath_sep pf)"

subsection \<open>\<^verbatim>\<open>String.prototype.split\<close> with a string separator\<close>

text \<open>
  \<open>split_from sep cur rest\<close> scans \<open>rest\<close> from the left; \<open>cur\<close> is the piece read so
  far. An occurrence of the non-empty separator closes the piece. With the empty
  separator JavaScript splits into the single code units, and the empty string into no
  piece at all.
\<close>

function split_from :: "string \<Rightarrow> string \<Rightarrow> string \<Rightarrow> string list" where
  "split_from sep cur [] = [cur]"
| "split_from sep cur (c # cs) =
     (if sep \<noteq> [] \<and> prefix sep (c # cs)
      then cur # split_from sep [] (drop (length sep) (c # cs))
      else split_from sep (cur @ [c]) cs)"
  by pat_completeness auto
termination
  by (relation "measure (\<lambda>(sep, cur, rest). length rest)") (auto simp: neq_Nil_conv)

definition split_js :: "string \<Rightarrow> string \<Rightarrow> string list" where
  "split_js s sep = (if sep = [] then map (\<lambda>c. [c]) s else split_from sep [] s)"

section \<open>The class \<^verbatim>\<open>Path\<close>\<close>

record Path =
  directory :: string
  fragment :: string
  full :: string
  absolute :: string
  sep :: string

text \<open>
  The constructor. \<^verbatim>\<open>parts[parts.length - 1]\<close> of an empty array is \<^verbatim>\<open>undefined\<close>, and
  \<^verbatim>\<open>fragment.length\<close> then throws a TypeError. \<^verbatim>\<open>path.substring(0, n)\<close> is \<open>take n path\<close>.
\<close>

definition Path_new :: "host \<Rightarrow> string \<Rightarrow> error + Path" where
  "Path_new h path =
     (let sep = preferredSeparatorFor (platform h) path;
          parts = split_js path sep
      in if parts = [] then Inl TypeError
         else
           let fragment = parts ! (length parts - 1);
               directory = take (length path - length fragment) path
           in Inr \<lparr>directory = directory, fragment = fragment, full = path,
                   absolute = absolutify h path, sep = sep\<rparr>)"

text \<open>\<^verbatim>\<open>isRoot\<close>, \<^verbatim>\<open>asDirectory\<close>, \<^verbatim>\<open>parent\<close>, \<^verbatim>\<open>hasShortcut\<close>, \<^verbatim>\<open>equals\<close>. A string is
  falsy exactly when it is empty.\<close>

definition isRoot :: "host \<Rightarrow> Path \<Rightarrow> bool" where
  "isRoot h p = (dirname h (absolute p) = absolute p)"

definition asDirectory :: "host \<Rightarrow> Path \<Rightarrow> error + Path" where
  "asDirectory h p = Path_new h (full p @ (if fragment p \<noteq> [] then sep p else []))"

definition parent :: "host \<Rightarrow> Path \<Rightarrow> error + Path" where
  "parent h p =
     (if isRoot h p then Inr p
      else if fragment p \<noteq> [] then Path_new h (directory p)
      else
        let newFull = dirname h (directory p);
            newFull = (if \<not> suffix (sep p) newFull then newFull @ sep p else newFull)
        in Path_new h newFull)"

definition hasShortcut :: "Path \<Rightarrow> string \<Rightarrow> bool" where
  "hasShortcut p shortcut =
     (let shortcut = shortcut @ sep p
      in fragment p = [] \<and>
         (suffix (sep p @ shortcut) (directory p) \<or> directory p = shortcut))"

definition equals :: "Path \<Rightarrow> Path \<Rightarrow> bool" where
  "equals p otherPath = (full p = full otherPath)"

text \<open>The static \<^verbatim>\<open>compare\<close>.\<close>

definition compare :: "host \<Rightarrow> Path \<Rightarrow> Path \<Rightarrow> int" where
  "compare h path1 path2 = localeCompare h (full path1) (full path2)"

text \<open>
  What ECMA-262 asks of \<^verbatim>\<open>localeCompare\<close>, a consistent comparison function: a string
  compares equal to itself, exchanging the arguments turns the sign of the result, and
  the order is transitive. It does not ask that only identical strings compare equal.
\<close>

definition consistent_comparison :: "(string \<Rightarrow> string \<Rightarrow> int) \<Rightarrow> bool" where
  "consistent_comparison lc =
     ((\<forall>s. lc s s = 0) \<and>
      (\<forall>s t. sgn (lc s t) = - sgn (lc t s)) \<and>
      (\<forall>s t u. lc s t \<le> 0 \<and> lc t u \<le> 0 \<longrightarrow> lc s u \<le> 0))"

subsection \<open>\<^verbatim>\<open>commonPrefix\<close>\<close>

text \<open>
  \<^verbatim>\<open>String.prototype.toLowerCase\<close> on code units below 256: the letters A to Z and the
  Latin-1 capitals U+00C0 to U+00DE without the multiplication sign U+00D7 move up by 32.
\<close>

definition lower_unit :: "char \<Rightarrow> char" where
  "lower_unit c =
     (let n = (of_char c :: nat)
      in if (65 \<le> n \<and> n \<le> 90) \<or> (192 \<le> n \<and> n \<le> 222 \<and> n \<noteq> 215)
         then char_of (n + 32) else c)"

definition toLowerCase :: "string \<Rightarrow> string" where
  "toLowerCase s = map lower_unit s"

text \<open>
  Arrays are mutable objects, so they live in a heap and are passed by reference: a
  reference is an index into the heap's list of arrays of its element type, and a new
  array is appended to that list. Paths are immutable (\<^verbatim>\<open>defineImmutable\<close>) and are
  values.
\<close>

record heap =
  path_arrays :: "Path list list"
  string_arrays :: "string list list"

text \<open>\<^verbatim>\<open>paths.map((path) => path.full)\<close> builds a new array and returns its reference.\<close>

definition Array_map_full :: "nat \<Rightarrow> heap \<Rightarrow> nat \<times> heap" where
  "Array_map_full r st =
     (length (string_arrays st),
      st\<lparr>string_arrays := string_arrays st @ [map full (path_arrays st ! r)]\<rparr>)"

text \<open>\<^verbatim>\<open>.sort()\<close> sorts the array in place, by code units, and returns the same reference.\<close>

definition Array_sort :: "nat \<Rightarrow> heap \<Rightarrow> nat \<times> heap" where
  "Array_sort r st =
     (r, st\<lparr>string_arrays := (string_arrays st)[r := sort (string_arrays st ! r)]\<rparr>)"

text \<open>The \<^verbatim>\<open>for\<close> loop of \<^verbatim>\<open>commonPrefix\<close>; \<open>acc\<close> is the variable \<^verbatim>\<open>prefix\<close>.\<close>

function commonPrefix_loop :: "bool \<Rightarrow> string \<Rightarrow> string \<Rightarrow> nat \<Rightarrow> string \<Rightarrow> string" where
  "commonPrefix_loop caseSensitive first last' k acc =
     (if k < min (length first) (length last') then
        if first ! k = last' ! k
        then commonPrefix_loop caseSensitive first last' (Suc k) (acc @ [first ! k])
        else if \<not> caseSensitive \<and> toLowerCase [first ! k] = toLowerCase [last' ! k]
        then commonPrefix_loop caseSensitive first last' (Suc k) (acc @ toLowerCase [first ! k])
        else acc
      else acc)"
  by pat_completeness auto
termination
  by (relation "measure (\<lambda>(cs, first, last', k, acc). min (length first) (length last') - k)") auto

declare commonPrefix_loop.simps [simp del]

text \<open>
  \<^verbatim>\<open>commonPrefix(paths, caseSensitive)\<close>, with \<open>paths\<close> the reference of an array of
  Paths. It returns the result or the error thrown, and the heap it leaves.
\<close>

definition commonPrefix :: "host \<Rightarrow> nat \<Rightarrow> bool \<Rightarrow> heap \<Rightarrow> (error + Path) \<times> heap" where
  "commonPrefix h paths caseSensitive st =
     (if \<not> paths < length (path_arrays st) then (Inl TypeError, st)
      else if length (path_arrays st ! paths) < 2
      then (Inl (Error ''Cannot find common prefix for lists shorter than two elements.''), st)
      else
        let (mapped, st1) = Array_map_full paths st;
            (strs, st2) = Array_sort mapped st1;
            first = string_arrays st2 ! strs ! 0;
            last' = string_arrays st2 ! strs ! (length (string_arrays st2 ! strs) - 1);
            acc = commonPrefix_loop caseSensitive first last' 0 []
        in (Path_new h acc, st2))"

text \<open>The Paths of the given strings, built one after the other by the constructor.\<close>

fun new_paths :: "host \<Rightarrow> string list \<Rightarrow> error + Path list" where
  "new_paths h [] = Inr []"
| "new_paths h (s # ss) =
     (case Path_new h s of
        Inl e \<Rightarrow> Inl e
      | Inr p \<Rightarrow> (case new_paths h ss of Inl e \<Rightarrow> Inl e | Inr ps \<Rightarrow> Inr (p # ps)))"

section \<open>A POSIX host\<close>

text \<open>
  Node's \<^verbatim>\<open>path.posix.dirname\<close>: the scan runs from the last index down to 1 and stops
  at the first slash that follows a character that is none; \<open>None\<close> is the end index -1.
\<close>

fun dirname_scan :: "string \<Rightarrow> nat \<Rightarrow> bool \<Rightarrow> nat option" where
  "dirname_scan path 0 matchedSlash = None"
| "dirname_scan path (Suc i) matchedSlash =
     (if path ! Suc i = slash
      then (if \<not> matchedSlash then Some (Suc i) else dirname_scan path i matchedSlash)
      else dirname_scan path i False)"

definition posix_dirname :: "string \<Rightarrow> string" where
  "posix_dirname path =
     (if path = [] then ''.''
      else
        let hasRoot = (path ! 0 = slash)
        in case dirname_scan path (length path - 1) True of
             None \<Rightarrow> if hasRoot then [slash] else ''.''
           | Some e \<Rightarrow> if hasRoot \<and> e = 1 then [slash, slash] else take e path)"

text \<open>
  Modelled from the spec: \<^verbatim>\<open>absolutify\<close> of \<^verbatim>\<open>lib/utils.js\<close>, which is not among the
  sources. The spec, section 6: resolve a possibly-relative path string against an
  implicit working or base directory. The model is Node's \<^verbatim>\<open>path.posix.resolve\<close> of the
  base directory and the path: a relative path is put behind the base directory, empty
  segments and \<^verbatim>\<open>.\<close> are dropped, and \<^verbatim>\<open>..\<close> drops the segment before it.
\<close>

fun normalize_segments :: "string list \<Rightarrow> string list \<Rightarrow> string list" where
  "normalize_segments acc [] = acc"
| "normalize_segments acc (seg # segs) =
     (if seg = [] \<or> seg = ''.'' then normalize_segments acc segs
      else if seg = ''..'' then normalize_segments (butlast acc) segs
      else normalize_segments (acc @ [seg]) segs)"

fun join :: "string \<Rightarrow> string list \<Rightarrow> string" where
  "join s [] = []"
| "join s [x] = x"
| "join s (x # y # zs) = x @ s @ join s (y # zs)"

definition posix_resolve :: "string \<Rightarrow> string \<Rightarrow> string" where
  "posix_resolve base path =
     (let p = (if path \<noteq> [] \<and> path ! 0 = slash then path else base @ [slash] @ path)
      in slash # join [slash] (normalize_segments [] (split_js p [slash])))"

text \<open>
  A comparison for the host. The collation of ICU, which Node's \<^verbatim>\<open>localeCompare\<close> uses,
  gives the control characters U+0000 to U+0008 and U+000E to U+001F no weight: a string
  compares as the string without them. The comparison below does the same and compares
  what is left by code units; the order ICU gives to the other characters is not
  modelled, and nothing below depends on it.
\<close>

definition ignorable :: "char \<Rightarrow> bool" where
  "ignorable c = (let n = (of_char c :: nat) in n \<le> 8 \<or> (14 \<le> n \<and> n \<le> 31))"

definition collation_key :: "string \<Rightarrow> string" where
  "collation_key s = filter (\<lambda>c. \<not> ignorable c) s"

definition ignoring_controls :: "string \<Rightarrow> string \<Rightarrow> int" where
  "ignoring_controls s t =
     (let a = collation_key s; b = collation_key t
      in if a < b then - 1 else if a = b then 0 else 1)"

definition posix_host :: "string \<Rightarrow> host" where
  "posix_host base =
     \<lparr>platform = Posix, absolutify = posix_resolve base, dirname = posix_dirname,
      localeCompare = ignoring_controls\<rparr>"

text \<open>
  The directory-name function of \<open>h\<close> brings no separator character into its result
  that its argument \<open>d\<close> does not have.
\<close>

definition keeps_separators :: "host \<Rightarrow> string \<Rightarrow> bool" where
  "keeps_separators h d =
     ((slash \<in> set (dirname h d) \<longrightarrow> slash \<in> set d) \<and>
      (backslash \<in> set (dirname h d) \<longrightarrow> backslash \<in> set d))"

section \<open>Splitting\<close>

lemma split_from_nonempty: "split_from sp cur rest \<noteq> []"
  by (induction sp cur rest rule: split_from.induct) auto

lemma split_from_last_suffix: "suffix (last (split_from sp cur rest)) (cur @ rest)"
proof (induction sp cur rest rule: split_from.induct)
  case (1 sp cur)
  show ?case by simp
next
  case (2 sp cur c cs)
  show ?case
  proof (cases "sp \<noteq> [] \<and> prefix sp (c # cs)")
    case True
    have "suffix (last (split_from sp [] (drop (length sp) (c # cs)))) (drop (length sp) (c # cs))"
      using 2(1) True by simp
    moreover have "suffix (drop (length sp) (c # cs)) (cur @ c # cs)"
      by (meson suffix_drop suffix_appendI)
    ultimately have "suffix (last (split_from sp [] (drop (length sp) (c # cs)))) (cur @ c # cs)"
      by (rule suffix_order.trans)
    then show ?thesis using True by (simp add: split_from_nonempty)
  next
    case False
    then show ?thesis using 2(2) by auto
  qed
qed

lemma split_from_last_no_sep:
  "x \<notin> set cur \<Longrightarrow> x \<notin> set (last (split_from [x] cur rest))"
  by (induction "[x]" cur rest rule: split_from.induct) (auto simp: split_from_nonempty)

lemma split_js_char_nonempty: "split_js s [x] \<noteq> []"
  by (simp add: split_js_def split_from_nonempty)

lemma preferredSeparatorFor_cases:
  "preferredSeparatorFor pf s = [slash] \<or> preferredSeparatorFor pf s = [backslash]"
  by (cases pf) (simp_all add: preferredSeparatorFor_def stdPath_sep_def Let_def)

lemma Path_new_Inr:
  "Path_new h s =
     Inr \<lparr>directory = take (length s - length (last (split_js s (preferredSeparatorFor (platform h) s)))) s,
          fragment = last (split_js s (preferredSeparatorFor (platform h) s)),
          full = s, absolute = absolutify h s,
          sep = preferredSeparatorFor (platform h) s\<rparr>"
proof -
  obtain x where x: "preferredSeparatorFor (platform h) s = [x]"
    using preferredSeparatorFor_cases by blast
  have "split_js s [x] \<noteq> []" by (rule split_js_char_nonempty)
  then show ?thesis
    by (simp add: Path_new_def Let_def x last_conv_nth)
qed

lemma split_from_no_sep: "x \<notin> set rest \<Longrightarrow> split_from [x] cur rest = [cur @ rest]"
  by (induction rest arbitrary: cur) auto

lemma split_from_last_sep:
  "x \<in> set rest \<Longrightarrow>
     \<exists>d. rest = d @ x # last (split_from [x] cur rest) \<and> x \<notin> set (last (split_from [x] cur rest))"
proof (induction rest arbitrary: cur)
  case Nil
  then show ?case by simp
next
  case (Cons c cs)
  show ?case
  proof (cases "x \<in> set cs")
    case True
    define cur' where "cur' = (if c = x then [] else cur @ [c])"
    have step: "last (split_from [x] cur (c # cs)) = last (split_from [x] cur' cs)"
      by (simp add: cur'_def split_from_nonempty)
    from Cons.IH [OF True, of cur'] obtain d where
      d: "cs = d @ x # last (split_from [x] cur' cs)"
         "x \<notin> set (last (split_from [x] cur' cs))"
      by blast
    have "c # cs = (c # d) @ x # last (split_from [x] cur' cs)"
      using d(1) by simp
    then show ?thesis
      unfolding step using d(2) by blast
  next
    case False
    then have "c = x" using Cons.prems by simp
    then show ?thesis using False by (simp add: split_from_no_sep)
  qed
qed

lemma fragment_shape:
  assumes "f = last (split_js s [x])"
  shows "(x \<notin> set s \<and> f = s \<and> take (length s - length f) s = []) \<or>
         (\<exists>d. s = d @ x # f \<and> x \<notin> set f \<and> take (length s - length f) s = d @ [x])"
proof (cases "x \<in> set s")
  case False
  then show ?thesis using assms by (simp add: split_js_def split_from_no_sep)
next
  case True
  from split_from_last_sep [OF True, of "[]"] obtain d where
    d: "s = d @ x # f" "x \<notin> set f"
    using assms by (auto simp: split_js_def)
  have "take (length s - length f) s = d @ [x]"
    by (subst d(1), subst d(1)) simp
  then show ?thesis using d by blast
qed

lemma fragment_empty:
  assumes "t = [] \<or> last t = x"
  shows "last (split_js t [x]) = []"
proof (cases "t = []")
  case True
  then show ?thesis by (simp add: split_js_def)
next
  case False
  then have lx: "last t = x" using assms by simp
  then have "x \<in> set t" using False last_in_set by blast
  define f where "f = last (split_js t [x])"
  from fragment_shape [OF f_def] \<open>x \<in> set t\<close> obtain d where d: "t = d @ x # f" "x \<notin> set f"
    by auto
  have "f = []"
  proof (rule ccontr)
    assume "f \<noteq> []"
    then have "last t = last f" using d(1) by simp
    then show False using lx d(2) \<open>f \<noteq> []\<close> last_in_set by metis
  qed
  then show ?thesis by (simp add: f_def)
qed

lemma separator_stable:
  assumes "preferredSeparatorFor pf s = [x]" and "t \<noteq> []" and "last t = x"
    and "slash \<in> set t \<Longrightarrow> slash \<in> set s \<or> x = slash"
    and "backslash \<in> set t \<Longrightarrow> backslash \<in> set s \<or> x = backslash"
  shows "preferredSeparatorFor pf t = [x]"
proof -
  have "x \<in> set t" using assms(2,3) last_in_set by blast
  have ne: "slash \<noteq> backslash" by (simp add: slash_def backslash_def)
  show ?thesis
    using assms(1,4,5) \<open>x \<in> set t\<close> ne
    by (cases pf) (auto simp: preferredSeparatorFor_def stdPath_sep_def Let_def split: if_splits)
qed

lemma Path_new_directory_form:
  assumes "preferredSeparatorFor (platform h) t = [x]" and "t = [] \<or> last t = x"
  shows "Path_new h t =
           Inr \<lparr>directory = t, fragment = [], full = t, absolute = absolutify h t, sep = [x]\<rparr>"
  using fragment_empty [OF assms(2)] by (simp add: Path_new_Inr assms(1))

lemma Path_new_total: "\<exists>p. Path_new h s = Inr p"
  by (simp add: Path_new_Inr)

section \<open>The constructor\<close>

text \<open>
  C1: for every input string \<open>s\<close>, the constructor returns a Path whose directory
  followed by its fragment is \<open>s\<close>.
\<close>

theorem C1_directory_fragment:
  "returns (Path_new h s) (\<lambda>p. directory p @ fragment p = s)"
proof -
  let ?sp = "preferredSeparatorFor (platform h) s"
  obtain x where x: "?sp = [x]"
    using preferredSeparatorFor_cases by blast
  define f where "f = last (split_js s ?sp)"
  have "suffix f s"
    using split_from_last_suffix [of "[x]" "[]" s] by (simp add: split_js_def x f_def)
  then obtain d where d: "s = d @ f"
    by (auto simp: suffix_def)
  then have "take (length s - length f) s @ f = s"
    by simp
  then show ?thesis
    by (simp add: returns_def Path_new_Inr f_def)
qed

text \<open>
  C7: the constructor is total: for every input string it returns a Path and throws
  nothing, and from the empty string it returns the Path with the empty fragment and the
  empty directory.
\<close>

theorem C7_constructor_total:
  "(\<exists>p. Path_new h s = Inr p) \<and>
   returns (Path_new h []) (\<lambda>p. fragment p = [] \<and> directory p = [])"
  by (simp add: Path_new_Inr returns_def split_js_def preferredSeparatorFor_def
      stdPath_sep_def split: platform.split)

text \<open>
  C8: for every input string, the separator of the constructed Path is one character,
  and the fragment does not contain it.
\<close>

theorem C8_fragment_no_separator:
  "returns (Path_new h s) (\<lambda>p. \<exists>x. sep p = [x] \<and> x \<notin> set (fragment p))"
proof -
  obtain x where x: "preferredSeparatorFor (platform h) s = [x]"
    using preferredSeparatorFor_cases by blast
  have "x \<notin> set (last (split_js s [x]))"
    using split_from_last_no_sep [of x "[]" s] by (simp add: split_js_def)
  then show ?thesis
    by (simp add: returns_def Path_new_Inr x)
qed

section \<open>\<^verbatim>\<open>asDirectory\<close>\<close>

text \<open>
  C9: \<^verbatim>\<open>asDirectory\<close> is idempotent on the Paths the constructor builds: both calls
  return, and the second returns the value it was given.
\<close>

theorem C9_asDirectory_idempotent:
  "returns (Path_new h s) (\<lambda>p. returns (asDirectory h p) (\<lambda>q.
     returns (asDirectory h q) (\<lambda>r. full r = full q \<and> r = q)))"
proof -
  obtain x where x: "preferredSeparatorFor (platform h) s = [x]"
    using preferredSeparatorFor_cases by blast
  define f where "f = last (split_js s [x])"
  show ?thesis
  proof (cases "f = []")
    case True
    then show ?thesis
      by (simp add: returns_def Path_new_Inr asDirectory_def x f_def)
  next
    case False
    have sp: "preferredSeparatorFor (platform h) (s @ [x]) = [x]"
      by (rule separator_stable [OF x]) auto
    have q: "Path_new h (s @ [x]) =
               Inr \<lparr>directory = s @ [x], fragment = [], full = s @ [x],
                    absolute = absolutify h (s @ [x]), sep = [x]\<rparr>"
      by (rule Path_new_directory_form [OF sp]) simp
    define P where "P = \<lparr>directory = take (length s - length f) s, fragment = f, full = s,
      absolute = absolutify h s, sep = [x]\<rparr>"
    define Q where "Q = \<lparr>directory = s @ [x], fragment = [], full = s @ [x],
      absolute = absolutify h (s @ [x]), sep = [x]\<rparr>"
    have p: "Path_new h s = Inr P"
      by (simp add: Path_new_Inr x f_def P_def)
    have aq: "asDirectory h P = Inr Q"
      using False q by (simp add: asDirectory_def P_def Q_def)
    have ar: "asDirectory h Q = Inr Q"
      using q by (simp add: asDirectory_def Q_def)
    show ?thesis
      by (simp add: returns_def p aq ar)
  qed
qed

section \<open>\<^verbatim>\<open>parent\<close>\<close>

lemma parent_total: "\<exists>q. parent h p = Inr q"
  unfolding parent_def Let_def using Path_new_total by simp

lemma parent_of_file:
  assumes x: "preferredSeparatorFor (platform h) s = [x]"
    and f: "f = last (split_js s [x])" and "f \<noteq> []"
  shows "returns (Path_new h (take (length s - length f) s)) (\<lambda>q. fragment q = [])"
proof -
  define d where "d = take (length s - length f) s"
  show ?thesis
  proof (cases "d = []")
    case True
    obtain y where y: "preferredSeparatorFor (platform h) [] = [y]"
      using preferredSeparatorFor_cases by blast
    have "returns (Path_new h d) (\<lambda>q. fragment q = [])"
      using True Path_new_directory_form [OF y] by (simp add: returns_def)
    then show ?thesis by (simp only: d_def)
  next
    case False
    then obtain d' where d': "s = d' @ x # f" "d = d' @ [x]"
      using fragment_shape [OF f] by (auto simp: d_def)
    have sp: "preferredSeparatorFor (platform h) d = [x]"
      by (rule separator_stable [OF x]) (auto simp: d')
    have "returns (Path_new h d) (\<lambda>q. fragment q = [])"
      using Path_new_directory_form [OF sp] d'(2) by (simp add: returns_def)
    then show ?thesis by (simp only: d_def)
  qed
qed

lemma parent_of_directory:
  assumes x: "preferredSeparatorFor (platform h) s = [x]"
    and k: "keeps_separators h s"
    and t: "t = (if \<not> suffix [x] (dirname h s) then dirname h s @ [x] else dirname h s)"
  shows "returns (Path_new h t) (\<lambda>q. fragment q = [])"
proof -
  have ne: "t \<noteq> []" and lt: "last t = x"
    using t by (auto simp: suffix_def)
  have st: "set t \<subseteq> insert x (set (dirname h s))"
    using t by auto
  have sp: "preferredSeparatorFor (platform h) t = [x]"
  proof (rule separator_stable [OF x ne lt])
    assume "slash \<in> set t"
    then show "slash \<in> set s \<or> x = slash"
      using st k by (auto simp: keeps_separators_def)
  next
    assume "backslash \<in> set t"
    then show "backslash \<in> set s \<or> x = backslash"
      using st k by (auto simp: keeps_separators_def)
  qed
  show ?thesis
    using Path_new_directory_form [OF sp] lt by (simp add: returns_def)
qed

lemma parent_example:
  "returns (Path_new (posix_host base) ''/a/b/'')
     (\<lambda>p. returns (parent (posix_host base) p) (\<lambda>q. full q = ''/a/''))"
  by (simp add: returns_def Path_new_def Let_def preferredSeparatorFor_def split_js_def
      parent_def isRoot_def posix_host_def posix_resolve_def posix_dirname_def
      slash_def backslash_def suffix_def)

text \<open>Node's \<^verbatim>\<open>path.posix.dirname\<close> brings no separator character into its result.\<close>

lemma posix_keeps_separators: "keeps_separators (posix_host base) d"
proof -
  have root: "d \<noteq> [] \<Longrightarrow> d ! 0 = slash \<Longrightarrow> slash \<in> set d"
    by (cases d) auto
  have ne: "CHR ''.'' \<noteq> slash" "CHR ''.'' \<noteq> backslash" "slash \<noteq> backslash"
    by (simp_all add: slash_def backslash_def)
  show ?thesis
    using root ne
    by (auto simp: keeps_separators_def posix_host_def posix_dirname_def Let_def
        split: option.splits if_splits dest: in_set_takeD)
qed

text \<open>
  C4, as amended: for every Path \<open>p\<close> the constructor builds, \<^verbatim>\<open>parent\<close> returns. If
  \<open>p\<close> is a root, it returns \<open>p\<close> itself. If \<open>p\<close> is not a root, the result has an empty
  fragment, provided that \<open>p\<close> has a fragment or that the host's directory-name function
  brings no separator character into the directory name of \<open>p\<close>'s directory. On a POSIX
  host the parent of \<^verbatim>\<open>/a/b/\<close> is \<^verbatim>\<open>/a/\<close>.
\<close>

theorem C4_parent:
  "returns (Path_new h s) (\<lambda>p. returns (parent h p) (\<lambda>q.
      (isRoot h p \<longrightarrow> q = p) \<and>
      (\<not> isRoot h p \<and> (fragment p \<noteq> [] \<or> keeps_separators h (directory p))
         \<longrightarrow> fragment q = []))) \<and>
   returns (Path_new (posix_host base) ''/a/b/'')
     (\<lambda>p. returns (parent (posix_host base) p) (\<lambda>q. full q = ''/a/''))"
proof -
  obtain x where x: "preferredSeparatorFor (platform h) s = [x]"
    using preferredSeparatorFor_cases by blast
  define f where "f = last (split_js s [x])"
  define P where "P = \<lparr>directory = take (length s - length f) s, fragment = f, full = s,
    absolute = absolutify h s, sep = [x]\<rparr>"
  have p: "Path_new h s = Inr P"
    by (simp add: Path_new_Inr x f_def P_def)
  have "returns (parent h P) (\<lambda>q.
      (isRoot h P \<longrightarrow> q = P) \<and>
      (\<not> isRoot h P \<and> (fragment P \<noteq> [] \<or> keeps_separators h (directory P))
         \<longrightarrow> fragment q = []))"
  proof (cases "isRoot h P")
    case True
    then show ?thesis by (simp add: parent_def returns_def)
  next
    case notroot: False
    show ?thesis
    proof (cases "f = []")
      case False
      have "returns (Path_new h (directory P)) (\<lambda>q. fragment q = [])"
        using parent_of_file [OF x f_def False] by (simp add: P_def)
      then show ?thesis
        using notroot False by (simp add: parent_def returns_def P_def split: sum.splits)
    next
      case True
      then have dir: "directory P = s" by (simp add: P_def)
      show ?thesis
      proof (cases "keeps_separators h s")
        case k: True
        have "returns (Path_new h (if \<not> suffix [x] (dirname h s) then dirname h s @ [x] else dirname h s))
                (\<lambda>q. fragment q = [])"
          by (rule parent_of_directory [OF x k refl])
        then show ?thesis
          using notroot True dir
          by (simp add: parent_def returns_def P_def Let_def split: sum.splits if_splits)
      next
        case False
        obtain q where "parent h P = Inr q"
          using parent_total by blast
        then show ?thesis
          using notroot True False dir by (simp add: returns_def P_def)
      qed
    qed
  qed
  then show ?thesis
    using parent_example by (simp add: returns_def p)
qed

text \<open>
  The theorem at the root \<^verbatim>\<open>/\<close> and at \<^verbatim>\<open>/a/b/\<close>, which is no root and whose directory
  name keeps the separators, on a POSIX host with the base directory \<^verbatim>\<open>/home/user\<close>.
\<close>

theorem C4_parent_witness:
  "returns (Path_new (posix_host ''/home/user'') ''/'')
     (\<lambda>p. isRoot (posix_host ''/home/user'') p \<and>
        returns (parent (posix_host ''/home/user'') p) (\<lambda>q. q = p)) \<and>
   returns (Path_new (posix_host ''/home/user'') ''/a/b/'')
     (\<lambda>p. \<not> isRoot (posix_host ''/home/user'') p \<and>
        keeps_separators (posix_host ''/home/user'') (directory p) \<and>
        returns (parent (posix_host ''/home/user'') p) (\<lambda>q. fragment q = [] \<and> full q = ''/a/''))"
  using C4_parent [of "posix_host ''/home/user''" "''/''" "''/home/user''"]
    C4_parent [of "posix_host ''/home/user''" "''/a/b/''" "''/home/user''"]
  by code_simp

text \<open>
  C4 as it was stated fails: the result of \<^verbatim>\<open>parent\<close> is not always a Path with an
  empty fragment. On a POSIX host the Path of \<^verbatim>\<open>/.\<close> has the absolute path \<^verbatim>\<open>/\<close>, so it
  is a root and \<^verbatim>\<open>parent\<close> returns it unchanged, with the fragment \<^verbatim>\<open>.\<close>.
\<close>

theorem C4_root_with_fragment:
  "Path_new (posix_host ''/home/user'') ''/.'' =
     Inr \<lparr>directory = ''/'', fragment = ''.'', full = ''/.'', absolute = ''/'', sep = ''/''\<rparr> \<and>
   isRoot (posix_host ''/home/user'')
     \<lparr>directory = ''/'', fragment = ''.'', full = ''/.'', absolute = ''/'', sep = ''/''\<rparr> \<and>
   parent (posix_host ''/home/user'')
     \<lparr>directory = ''/'', fragment = ''.'', full = ''/.'', absolute = ''/'', sep = ''/''\<rparr> =
     Inr \<lparr>directory = ''/'', fragment = ''.'', full = ''/.'', absolute = ''/'', sep = ''/''\<rparr> \<and>
   fragment \<lparr>directory = ''/'', fragment = ''.'', full = ''/.'', absolute = ''/'', sep = ''/''\<rparr> \<noteq> []"
  by code_simp

section \<open>\<^verbatim>\<open>compare\<close> and \<^verbatim>\<open>equals\<close>\<close>

lemma ignoring_controls_consistent: "consistent_comparison ignoring_controls"
  by (auto simp: consistent_comparison_def ignoring_controls_def Let_def)

text \<open>
  C6, as amended: on a host whose \<^verbatim>\<open>localeCompare\<close> is a consistent comparison function,
  \<^verbatim>\<open>compare\<close> is a strict weak ordering of the Paths: a Path compares equal to itself,
  exchanging the arguments turns the sign, the order and its strict part are transitive,
  and so is comparing equal. Paths that are \<^verbatim>\<open>equals\<close> compare equal; that Paths which
  compare equal are \<^verbatim>\<open>equals\<close> is not stated.
\<close>

theorem C6_compare:
  assumes "consistent_comparison (localeCompare h)"
  shows "compare h a a = 0 \<and>
         sgn (compare h a b) = - sgn (compare h b a) \<and>
         (compare h a b \<le> 0 \<and> compare h b c \<le> 0 \<longrightarrow> compare h a c \<le> 0) \<and>
         (compare h a b < 0 \<and> compare h b c < 0 \<longrightarrow> compare h a c < 0) \<and>
         (compare h a b = 0 \<and> compare h b c = 0 \<longrightarrow> compare h a c = 0) \<and>
         (equals a b \<longrightarrow> compare h a b = 0)"
proof -
  define lc where "lc = localeCompare h"
  from assms have refl: "lc s s = 0"
    and anti: "sgn (lc s t) = - sgn (lc t s)"
    and trans: "lc s t \<le> 0 \<Longrightarrow> lc t u \<le> 0 \<Longrightarrow> lc s u \<le> 0" for s t u
    unfolding consistent_comparison_def lc_def by blast+
  have flip: "0 \<le> lc s t \<longleftrightarrow> lc t s \<le> 0" for s t
    using anti [of s t] by (auto simp: sgn_if split: if_splits)
  have strict: "lc s u < 0" if "lc s t < 0" "lc t u < 0" for s t u
  proof (rule ccontr)
    assume "\<not> lc s u < 0"
    then have "lc u s \<le> 0" using flip [of s u] by simp
    with that(1) have "lc u t \<le> 0" using trans [of u s t] by simp
    then have "0 \<le> lc t u" using flip [of t u] by simp
    with that(2) show False by simp
  qed
  have zero: "lc s u = 0" if "lc s t = 0" "lc t u = 0" for s t u
  proof -
    have "lc s u \<le> 0" using that trans [of s t u] by simp
    moreover have "lc t s \<le> 0" "lc u t \<le> 0"
      using that flip [of s t] flip [of t u] by simp_all
    then have "lc u s \<le> 0" using trans [of u t s] by simp
    then have "0 \<le> lc s u" using flip [of s u] by simp
    ultimately show ?thesis by simp
  qed
  have "lc (full a) (full a) = 0"
    by (rule refl)
  moreover have "sgn (lc (full a) (full b)) = - sgn (lc (full b) (full a))"
    by (rule anti)
  moreover have "lc (full a) (full b) \<le> 0 \<and> lc (full b) (full c) \<le> 0
      \<longrightarrow> lc (full a) (full c) \<le> 0"
    using trans by blast
  moreover have "lc (full a) (full b) < 0 \<and> lc (full b) (full c) < 0
      \<longrightarrow> lc (full a) (full c) < 0"
    using strict by blast
  moreover have "lc (full a) (full b) = 0 \<and> lc (full b) (full c) = 0
      \<longrightarrow> lc (full a) (full c) = 0"
    using zero by blast
  moreover have "full a = full b \<longrightarrow> lc (full a) (full b) = 0"
    using refl by simp
  ultimately show ?thesis
    unfolding compare_def equals_def lc_def by blast
qed

text \<open>
  The theorem on a POSIX host, at the Paths of \<^verbatim>\<open>/a\<close>, \<^verbatim>\<open>/b\<close> and \<^verbatim>\<open>/c\<close>.
\<close>

theorem C6_compare_witness:
  "consistent_comparison (localeCompare (posix_host ''/home/user'')) \<and>
   compare (posix_host ''/home/user'')
     \<lparr>directory = ''/'', fragment = ''a'', full = ''/a'', absolute = ''/a'', sep = ''/''\<rparr>
     \<lparr>directory = ''/'', fragment = ''b'', full = ''/b'', absolute = ''/b'', sep = ''/''\<rparr> < 0 \<and>
   compare (posix_host ''/home/user'')
     \<lparr>directory = ''/'', fragment = ''b'', full = ''/b'', absolute = ''/b'', sep = ''/''\<rparr>
     \<lparr>directory = ''/'', fragment = ''c'', full = ''/c'', absolute = ''/c'', sep = ''/''\<rparr> < 0 \<and>
   compare (posix_host ''/home/user'')
     \<lparr>directory = ''/'', fragment = ''a'', full = ''/a'', absolute = ''/a'', sep = ''/''\<rparr>
     \<lparr>directory = ''/'', fragment = ''c'', full = ''/c'', absolute = ''/c'', sep = ''/''\<rparr> < 0 \<and>
   equals
     \<lparr>directory = ''/'', fragment = ''a'', full = ''/a'', absolute = ''/a'', sep = ''/''\<rparr>
     \<lparr>directory = ''/'', fragment = ''a'', full = ''/a'', absolute = ''/a'', sep = ''/''\<rparr> \<and>
   compare (posix_host ''/home/user'')
     \<lparr>directory = ''/'', fragment = ''a'', full = ''/a'', absolute = ''/a'', sep = ''/''\<rparr>
     \<lparr>directory = ''/'', fragment = ''a'', full = ''/a'', absolute = ''/a'', sep = ''/''\<rparr> = 0"
proof -
  let ?H = "posix_host ''/home/user''"
  let ?A = "\<lparr>directory = ''/'', fragment = ''a'', full = ''/a'', absolute = ''/a'', sep = ''/''\<rparr>"
  let ?B = "\<lparr>directory = ''/'', fragment = ''b'', full = ''/b'', absolute = ''/b'', sep = ''/''\<rparr>"
  let ?C = "\<lparr>directory = ''/'', fragment = ''c'', full = ''/c'', absolute = ''/c'', sep = ''/''\<rparr>"
  have cc: "consistent_comparison (localeCompare ?H)"
    by (simp add: posix_host_def ignoring_controls_consistent)
  have ab: "compare ?H ?A ?B < 0" and bc: "compare ?H ?B ?C < 0"
    by code_simp+
  have eq: "equals ?A ?A"
    by (simp add: equals_def)
  have "compare ?H ?A ?C < 0"
    using C6_compare [OF cc, of ?A ?B ?C] ab bc by blast
  moreover have "compare ?H ?A ?A = 0"
    using C6_compare [OF cc, of ?A ?A ?A] by blast
  ultimately show ?thesis
    using cc ab bc eq by blast
qed

text \<open>
  C6 as it was stated fails: Paths can compare equal and not be \<^verbatim>\<open>equals\<close>. The Paths of
  \<^verbatim>\<open>a\<close> and of \<^verbatim>\<open>a\<close> followed by the control character U+0001 have different full
  strings, and the comparison of the host gives 0, since the control character has no
  weight.
\<close>

theorem C6_compare_zero_not_equals:
  "Path_new (posix_host ''/home/user'') ''a'' =
     Inr \<lparr>directory = [], fragment = ''a'', full = ''a'',
          absolute = ''/home/user/a'', sep = ''/''\<rparr> \<and>
   Path_new (posix_host ''/home/user'') [CHR ''a'', CHR 0x01] =
     Inr \<lparr>directory = [], fragment = [CHR ''a'', CHR 0x01], full = [CHR ''a'', CHR 0x01],
          absolute = ''/home/user/'' @ [CHR ''a'', CHR 0x01], sep = ''/''\<rparr> \<and>
   compare (posix_host ''/home/user'')
     \<lparr>directory = [], fragment = ''a'', full = ''a'',
      absolute = ''/home/user/a'', sep = ''/''\<rparr>
     \<lparr>directory = [], fragment = [CHR ''a'', CHR 0x01], full = [CHR ''a'', CHR 0x01],
      absolute = ''/home/user/'' @ [CHR ''a'', CHR 0x01], sep = ''/''\<rparr> = 0 \<and>
   \<not> equals
     \<lparr>directory = [], fragment = ''a'', full = ''a'',
      absolute = ''/home/user/a'', sep = ''/''\<rparr>
     \<lparr>directory = [], fragment = [CHR ''a'', CHR 0x01], full = [CHR ''a'', CHR 0x01],
      absolute = ''/home/user/'' @ [CHR ''a'', CHR 0x01], sep = ''/''\<rparr>"
  by code_simp

section \<open>\<^verbatim>\<open>hasShortcut\<close>\<close>

lemma hasShortcut_examples:
  "returns (Path_new h ''/foo/bar/:/'') (\<lambda>p. hasShortcut p '':'')"
  "returns (Path_new h '':/'') (\<lambda>p. hasShortcut p '':'')"
  "returns (Path_new h ''/foo/bar:/'') (\<lambda>p. \<not> hasShortcut p '':'')"
  "returns (Path_new h ''/blah/:'') (\<lambda>p. \<not> hasShortcut p '':'')"
  by (simp_all add: returns_def Path_new_def Let_def preferredSeparatorFor_def split_js_def
      hasShortcut_def slash_def backslash_def suffix_def)

lemma hasShortcut_full:
  assumes "Path_new h s = Inr p"
  shows "hasShortcut p t = (suffix (sep p @ t @ sep p) (full p) \<or> full p = t @ sep p)"
proof -
  obtain x where x: "preferredSeparatorFor (platform h) s = [x]"
    using preferredSeparatorFor_cases by blast
  define f where "f = last (split_js s [x])"
  have p: "p = \<lparr>directory = take (length s - length f) s, fragment = f, full = s,
      absolute = absolutify h s, sep = [x]\<rparr>"
    using assms by (simp add: Path_new_Inr x f_def)
  show ?thesis
  proof (cases "s = [] \<or> last s = x")
    case True
    then have "f = []" unfolding f_def by (rule fragment_empty)
    then show ?thesis by (simp add: p hasShortcut_def Let_def)
  next
    case False
    then have "f \<noteq> []"
      using fragment_shape [OF f_def] by auto
    moreover have "\<not> suffix ([x] @ t @ [x]) s"
      using False by (auto simp: suffix_def)
    moreover have "s \<noteq> t @ [x]"
      using False by auto
    ultimately show ?thesis by (simp add: p hasShortcut_def Let_def)
  qed
qed

text \<open>
  C5: for every Path \<open>p\<close> the constructor builds and every token \<open>t\<close>,
  \<^verbatim>\<open>hasShortcut\<close> holds exactly when the fragment of \<open>p\<close> is empty and its directory ends
  with separator, token, separator or is token, separator; the same holds with the full
  string in place of the directory and no condition on the fragment. With the token
  \<^verbatim>\<open>:\<close> it holds for \<^verbatim>\<open>/foo/bar/:/\<close> and \<^verbatim>\<open>:/\<close>, and not for \<^verbatim>\<open>/foo/bar:/\<close> and \<^verbatim>\<open>/blah/:\<close>.
\<close>

theorem C5_hasShortcut:
  "returns (Path_new h s) (\<lambda>p.
      hasShortcut p t =
        (fragment p = [] \<and>
         (suffix (sep p @ t @ sep p) (directory p) \<or> directory p = t @ sep p)) \<and>
      hasShortcut p t = (suffix (sep p @ t @ sep p) (full p) \<or> full p = t @ sep p)) \<and>
   returns (Path_new h ''/foo/bar/:/'') (\<lambda>p. hasShortcut p '':'') \<and>
   returns (Path_new h '':/'') (\<lambda>p. hasShortcut p '':'') \<and>
   returns (Path_new h ''/foo/bar:/'') (\<lambda>p. \<not> hasShortcut p '':'') \<and>
   returns (Path_new h ''/blah/:'') (\<lambda>p. \<not> hasShortcut p '':'')"
proof -
  obtain p where p: "Path_new h s = Inr p"
    using Path_new_total by blast
  have "hasShortcut p t =
      (fragment p = [] \<and> (suffix (sep p @ t @ sep p) (directory p) \<or> directory p = t @ sep p))"
    by (simp add: hasShortcut_def Let_def)
  then show ?thesis
    using hasShortcut_full [OF p, of t] hasShortcut_examples [of h]
    by (simp add: returns_def p)
qed

section \<open>\<^verbatim>\<open>commonPrefix\<close>\<close>

lemma commonPrefix_value:
  assumes "paths < length (path_arrays st)" and "2 \<le> length (path_arrays st ! paths)"
    and "xs = sort (map full (path_arrays st ! paths))"
  shows "fst (commonPrefix h paths cs st) =
           Path_new h (commonPrefix_loop cs (xs ! 0) (xs ! (length xs - 1)) 0 [])"
  using assms by (simp add: commonPrefix_def Array_map_full_def Array_sort_def Let_def)

lemma new_paths_full: "\<exists>ps. new_paths h ss = Inr ps \<and> map full ps = ss"
proof (induction ss)
  case Nil
  show ?case by simp
next
  case (Cons s ss)
  then obtain ps where "new_paths h ss = Inr ps" "map full ps = ss" by blast
  then show ?case by (simp add: Path_new_Inr)
qed

text \<open>
  C3: called with the reference of an array of Paths, \<^verbatim>\<open>commonPrefix\<close> throws the error
  with its message exactly when the array has fewer than two elements, and returns a
  Path exactly when it has at least two.
\<close>

theorem C3_commonPrefix_error:
  "paths < length (path_arrays st) \<Longrightarrow>
     (fst (commonPrefix h paths cs st) =
        Inl (Error ''Cannot find common prefix for lists shorter than two elements.'')) =
       (length (path_arrays st ! paths) < 2) \<and>
     (\<exists>p. fst (commonPrefix h paths cs st) = Inr p) = (2 \<le> length (path_arrays st ! paths))"
  by (auto simp add: commonPrefix_def Array_map_full_def Array_sort_def Let_def Path_new_Inr)

text \<open>The theorem at an array of one Path and at an array of two.\<close>

theorem C3_commonPrefix_error_witness:
  "length (path_arrays
      \<lparr>path_arrays = [[\<lparr>directory = ''/'', fragment = ''abc'', full = ''/abc'',
          absolute = ''/abc'', sep = ''/''\<rparr>]], string_arrays = []\<rparr> ! 0) < 2 \<and>
   fst (commonPrefix (posix_host ''/home/user'') 0 False
      \<lparr>path_arrays = [[\<lparr>directory = ''/'', fragment = ''abc'', full = ''/abc'',
          absolute = ''/abc'', sep = ''/''\<rparr>]], string_arrays = []\<rparr>) =
     Inl (Error ''Cannot find common prefix for lists shorter than two elements.'') \<and>
   2 \<le> length (path_arrays
      \<lparr>path_arrays = [[\<lparr>directory = ''/'', fragment = ''abc'', full = ''/abc'',
          absolute = ''/abc'', sep = ''/''\<rparr>,
        \<lparr>directory = ''/'', fragment = ''abd'', full = ''/abd'',
          absolute = ''/abd'', sep = ''/''\<rparr>]], string_arrays = []\<rparr> ! 0) \<and>
   (\<exists>p. fst (commonPrefix (posix_host ''/home/user'') 0 False
      \<lparr>path_arrays = [[\<lparr>directory = ''/'', fragment = ''abc'', full = ''/abc'',
          absolute = ''/abc'', sep = ''/''\<rparr>,
        \<lparr>directory = ''/'', fragment = ''abd'', full = ''/abd'',
          absolute = ''/abd'', sep = ''/''\<rparr>]], string_arrays = []\<rparr>) = Inr p)"
proof -
  let ?one = "\<lparr>path_arrays = [[\<lparr>directory = ''/'', fragment = ''abc'', full = ''/abc'',
          absolute = ''/abc'', sep = ''/''\<rparr>]], string_arrays = []\<rparr>"
  let ?two = "\<lparr>path_arrays = [[\<lparr>directory = ''/'', fragment = ''abc'', full = ''/abc'',
          absolute = ''/abc'', sep = ''/''\<rparr>,
        \<lparr>directory = ''/'', fragment = ''abd'', full = ''/abd'',
          absolute = ''/abd'', sep = ''/''\<rparr>]], string_arrays = []\<rparr>"
  have one: "0 < length (path_arrays ?one)" and two: "0 < length (path_arrays ?two)"
    by simp_all
  show ?thesis
    using C3_commonPrefix_error [OF one, of "posix_host ''/home/user''" False]
      C3_commonPrefix_error [OF two, of "posix_host ''/home/user''" False]
    by simp
qed

text \<open>
  C10: \<^verbatim>\<open>commonPrefix\<close> leaves every array of Paths of the heap as it was, the caller's
  among them, and every array of strings that was there before the call; the sort works
  on the array that \<^verbatim>\<open>map\<close> has built.
\<close>

theorem C10_commonPrefix_frame:
  "path_arrays (snd (commonPrefix h paths cs st)) = path_arrays st \<and>
   prefix (string_arrays st) (string_arrays (snd (commonPrefix h paths cs st)))"
  by (simp add: commonPrefix_def Array_map_full_def Array_sort_def Let_def)

text \<open>The two scenarios of the spec, on any host.\<close>

lemma commonPrefix_example_fold:
  "returns (new_paths h [''/Foo/Bar/baz'', ''/foo/bar/qux''])
     (\<lambda>ps. returns (fst (commonPrefix h 0 False \<lparr>path_arrays = [ps], string_arrays = []\<rparr>))
        (\<lambda>r. full r = ''/foo/bar/''))"
proof -
  obtain ps where ps: "new_paths h [''/Foo/Bar/baz'', ''/foo/bar/qux''] = Inr ps"
      "map full ps = [''/Foo/Bar/baz'', ''/foo/bar/qux'']"
    using new_paths_full by blast
  have len: "length ps = 2"
    using arg_cong [OF ps(2), of length] by simp
  have srt: "sort [''/Foo/Bar/baz'', ''/foo/bar/qux''] = [''/Foo/Bar/baz'', ''/foo/bar/qux'']"
    by code_simp
  have lp: "commonPrefix_loop False ''/Foo/Bar/baz'' ''/foo/bar/qux'' 0 [] = ''/foo/bar/''"
    by code_simp
  have "fst (commonPrefix h 0 False \<lparr>path_arrays = [ps], string_arrays = []\<rparr>) =
      Path_new h ''/foo/bar/''"
    by (subst commonPrefix_value [where xs = "[''/Foo/Bar/baz'', ''/foo/bar/qux'']"])
      (simp_all add: len ps(2) srt lp)
  then show ?thesis
    by (simp add: returns_def ps(1) Path_new_Inr del: new_paths.simps)
qed

lemma commonPrefix_example_plain:
  "returns (new_paths h [''/abc'', ''/abd''])
     (\<lambda>ps. returns (fst (commonPrefix h 0 False \<lparr>path_arrays = [ps], string_arrays = []\<rparr>))
        (\<lambda>r. full r = ''/ab''))"
proof -
  obtain ps where ps: "new_paths h [''/abc'', ''/abd''] = Inr ps"
      "map full ps = [''/abc'', ''/abd'']"
    using new_paths_full by blast
  have len: "length ps = 2"
    using arg_cong [OF ps(2), of length] by simp
  have srt: "sort [''/abc'', ''/abd''] = [''/abc'', ''/abd'']"
    by code_simp
  have lp: "commonPrefix_loop False ''/abc'' ''/abd'' 0 [] = ''/ab''"
    by code_simp
  have "fst (commonPrefix h 0 False \<lparr>path_arrays = [ps], string_arrays = []\<rparr>) =
      Path_new h ''/ab''"
    by (subst commonPrefix_value [where xs = "[''/abc'', ''/abd'']"])
      (simp_all add: len ps(2) srt lp)
  then show ?thesis
    by (simp add: returns_def ps(1) Path_new_Inr del: new_paths.simps)
qed

text \<open>
  C2: with \<open>caseSensitive = false\<close> the result is not always a common prefix of the
  given Paths. The array is sorted by code units, where the capitals come before the
  small letters, and only its first and last strings are compared, without regard to
  case. For the Paths of \<^verbatim>\<open>/B\<close>, \<^verbatim>\<open>/a\<close>, \<^verbatim>\<open>/b\<close> these are \<^verbatim>\<open>/B\<close> and \<^verbatim>\<open>/b\<close>, and the result is
  the Path of \<^verbatim>\<open>/b\<close>, which is no prefix of \<^verbatim>\<open>/a\<close>, with or without regard to case.
\<close>

theorem C2_commonPrefix_case_order:
  "new_paths (posix_host ''/home/user'') [''/B'', ''/a'', ''/b''] =
     Inr [\<lparr>directory = ''/'', fragment = ''B'', full = ''/B'', absolute = ''/B'', sep = ''/''\<rparr>,
          \<lparr>directory = ''/'', fragment = ''a'', full = ''/a'', absolute = ''/a'', sep = ''/''\<rparr>,
          \<lparr>directory = ''/'', fragment = ''b'', full = ''/b'', absolute = ''/b'', sep = ''/''\<rparr>] \<and>
   fst (commonPrefix (posix_host ''/home/user'') 0 False
     \<lparr>path_arrays = [[
        \<lparr>directory = ''/'', fragment = ''B'', full = ''/B'', absolute = ''/B'', sep = ''/''\<rparr>,
        \<lparr>directory = ''/'', fragment = ''a'', full = ''/a'', absolute = ''/a'', sep = ''/''\<rparr>,
        \<lparr>directory = ''/'', fragment = ''b'', full = ''/b'', absolute = ''/b'', sep = ''/''\<rparr>]],
      string_arrays = []\<rparr>) =
     Inr \<lparr>directory = ''/'', fragment = ''b'', full = ''/b'', absolute = ''/b'', sep = ''/''\<rparr> \<and>
   \<not> prefix ''/b'' ''/a'' \<and>
   \<not> prefix (toLowerCase ''/b'') (toLowerCase ''/a'')"
  by code_simp

text \<open>
  With \<open>caseSensitive = true\<close> the order of the sort and the comparison of the loop
  agree, and the result is the longest common prefix of all the given Paths.
\<close>

lemma commonPrefix_loop_caseSensitive:
  "k \<le> length a \<Longrightarrow> k \<le> length b \<Longrightarrow>
     commonPrefix_loop True a b k acc = acc @ longest_common_prefix (drop k a) (drop k b)"
proof (induction True a b k acc rule: commonPrefix_loop.induct)
  case (1 a b k acc)
  show ?case
  proof (cases "k < min (length a) (length b)")
    case True
    then have da: "drop k a = a ! k # drop (Suc k) a" and db: "drop k b = b ! k # drop (Suc k) b"
      by (simp_all add: Cons_nth_drop_Suc)
    show ?thesis
    proof (cases "a ! k = b ! k")
      case eq: True
      have "commonPrefix_loop True a b k acc = commonPrefix_loop True a b (Suc k) (acc @ [a ! k])"
        using True eq by (subst commonPrefix_loop.simps) simp
      also have "\<dots> = (acc @ [a ! k]) @ longest_common_prefix (drop (Suc k) a) (drop (Suc k) b)"
        using True eq by (intro "1.hyps"(1)) simp_all
      finally show ?thesis by (simp add: da db eq)
    next
      case False
      then show ?thesis
        using True by (subst commonPrefix_loop.simps) (simp add: da db)
    qed
  next
    case False
    then have "drop k a = [] \<or> drop k b = []" by auto
    then have "longest_common_prefix (drop k a) (drop k b) = []" by auto
    moreover have "commonPrefix_loop True a b k acc = acc"
      by (subst commonPrefix_loop.simps) (simp only: False if_False)
    ultimately show ?thesis by simp
  qed
qed

lemma prefix_between:
  fixes a x b :: "'a::linorder list"
  shows "a \<le> x \<Longrightarrow> x \<le> b \<Longrightarrow> prefix p a \<Longrightarrow> prefix p b \<Longrightarrow> prefix p x"
proof (induction p arbitrary: a x b)
  case Nil
  show ?case by simp
next
  case (Cons c p)
  from Cons.prems(3) obtain za where "a = (c # p) @ za"
    by (auto simp: prefix_def)
  then have a: "a = c # (p @ za)" by simp
  from Cons.prems(4) obtain zb where "b = (c # p) @ zb"
    by (auto simp: prefix_def)
  then have b: "b = c # (p @ zb)" by simp
  obtain d x' where x: "x = d # x'"
    using Cons.prems(1) a by (cases x) auto
  have "d = c" "p @ za \<le> x'" "x' \<le> p @ zb"
    using Cons.prems(1,2) by (auto simp: a b x split: if_splits)
  then show ?case
    using Cons.IH [of "p @ za" x' "p @ zb"] by (simp add: x)
qed

lemma sorted_extremes:
  fixes xs :: "'a::linorder list"
  assumes "sorted xs" and "x \<in> set xs"
  shows "xs ! 0 \<le> x \<and> x \<le> xs ! (length xs - 1)"
proof -
  obtain i where i: "i < length xs" "x = xs ! i"
    using assms(2) by (auto simp: in_set_conv_nth)
  show ?thesis
    using assms(1) i by (auto simp: sorted_iff_nth_mono)
qed

lemma commonPrefix_caseSensitive:
  assumes "paths < length (path_arrays st)" and "2 \<le> length (path_arrays st ! paths)"
  shows "returns (fst (commonPrefix h paths True st)) (\<lambda>r.
           (\<forall>p \<in> set (path_arrays st ! paths). prefix (full r) (full p)) \<and>
           (\<forall>q. (\<forall>p \<in> set (path_arrays st ! paths). prefix q (full p)) \<longrightarrow> prefix q (full r)))"
proof -
  define xs where "xs = sort (map full (path_arrays st ! paths))"
  define a where "a = xs ! 0"
  define b where "b = xs ! (length xs - 1)"
  define r where "r = longest_common_prefix a b"
  have len: "2 \<le> length xs" using assms(2) by (simp add: xs_def)
  have set_xs: "set xs = full ` set (path_arrays st ! paths)" by (simp add: xs_def)
  have "0 < length xs" "length xs - 1 < length xs"
    using len by auto
  then have ab: "a \<in> set xs" "b \<in> set xs"
    by (simp_all only: a_def b_def nth_mem)
  have "commonPrefix_loop True a b 0 [] = r"
    using commonPrefix_loop_caseSensitive [of 0 a b "[]"] by (simp add: r_def)
  then have val: "fst (commonPrefix h paths True st) = Path_new h r"
    using commonPrefix_value [OF assms xs_def, of h True] by (simp add: a_def b_def)
  have all: "prefix r x" if "x \<in> set xs" for x
  proof -
    have "a \<le> x" "x \<le> b"
      using sorted_extremes [of xs x] that by (simp_all add: xs_def a_def b_def)
    moreover have "prefix r a" "prefix r b"
      by (simp_all add: r_def longest_common_prefix_prefix1 longest_common_prefix_prefix2)
    ultimately show ?thesis by (rule prefix_between)
  qed
  have max: "prefix q r" if "\<forall>x \<in> set xs. prefix q x" for q
    using that ab by (simp add: r_def longest_common_prefix_max_prefix)
  show ?thesis
    using all max by (simp add: val returns_def Path_new_Inr set_xs)
qed

end
